theory Spec2Isabelle
  imports Complex_Main "HOL-Library.Word"
begin

unbundle bit_operations_syntax

section \<open>Data model\<close>

text \<open>
  Go's \<open>uint64\<close> is a 64-bit word: \<open>+\<close> and \<open>*\<close> wrap around, \<open>div\<close> and \<open>mod\<close> are the
  unsigned \<open>/\<close> and \<open>%\<close>. A \<open>[]byte\<close> is a list of 8-bit words.
\<close>

type_synonym u64 = "64 word"
type_synonym byte = "8 word"

text \<open>
  The panics of the package, as values. \<open>InvalidParameter\<close> stands for the four
  \<open>panic("bloom: ... must be ...")\<close> calls of the two constructors, \<open>NotInitialized\<close> for
  \<open>panic("bloom: filter not initialized")\<close>, and \<open>IndexOutOfRange\<close> for the run-time panic
  of a slice index that is not below the length of the slice.
\<close>

datatype error = InvalidParameter | NotInitialized | IndexOutOfRange

text \<open>The struct \<open>BloomFilter\<close> of bloom.go, with the names of its fields.\<close>

record BloomFilter =
  m :: u64
  k :: u64
  bits :: "u64 list"

section \<open>Construction\<close>

text \<open>
  \<open>New\<close>: the two guards, then \<open>wordCount := (m + 63) / 64\<close> in \<open>uint64\<close> arithmetic and
  \<open>make([]uint64, wordCount)\<close>, a slice of \<open>wordCount\<close> zero words. Memory is taken to be
  unbounded: \<open>make\<close> returns the slice whatever its length. In Go, \<open>make\<close> panics
  instead when the length is more than the platform can allocate; that limit is not
  modelled, so \<open>New\<close> returning a filter with many words says nothing about a real run.
\<close>

definition New :: "u64 \<Rightarrow> u64 \<Rightarrow> error + BloomFilter" where
  "New nbits nhash =
     (if nbits = 0 then Inl InvalidParameter
      else if nhash = 0 then Inl InvalidParameter
      else
        (let wordCount = (nbits + 63) div 64
         in Inr \<lparr>m = nbits, k = nhash, bits = replicate (unat wordCount) 0\<rparr>))"

section \<open>Hashing helpers\<close>

definition fnv64Offset :: u64 where
  "fnv64Offset = 14695981039346656037"

definition fnv64Prime :: u64 where
  "fnv64Prime = 1099511628211"

text \<open>
  The loop \<open>for _, b := range data { hash ^= uint64(b); hash *= fnv64Prime }\<close> is a fold
  over the bytes, from the offset basis.
\<close>

definition fnv64a :: "byte list \<Rightarrow> u64" where
  "fnv64a data = fold (\<lambda>b hash. (hash XOR ucast b) * fnv64Prime) data fnv64Offset"

definition fnv64aSalted :: "byte list \<Rightarrow> u64 \<Rightarrow> u64" where
  "fnv64aSalted data salt =
     fold (\<lambda>b hash. (hash XOR ucast b) * fnv64Prime) data (fnv64Offset XOR salt)"

definition hash128 :: "byte list \<Rightarrow> u64 \<times> u64" where
  "hash128 data =
     (let h1 = fnv64a data;
          salt = 0x9e3779b97f4a7c15;
          h2 = fnv64aSalted data salt
      in (h1, h2))"

section \<open>Bit addressing\<close>

text \<open>
  Every method with the receiver \<open>bf *BloomFilter\<close> takes the filter and returns it as
  it is after the call, next to the result; a panic ends the call and is the value
  \<open>Inl\<close>. Indexing \<open>bf.bits[wordIndex]\<close> panics when \<open>wordIndex\<close> is not below
  \<open>len(bf.bits)\<close>.
\<close>

definition setBit :: "BloomFilter \<Rightarrow> u64 \<Rightarrow> error + BloomFilter" where
  "setBit bf pos =
     (let wordIndex = pos div 64;
          bitIndex = pos mod 64;
          mask = push_bit (unat bitIndex) (1 :: u64)
      in if unat wordIndex < length (bits bf)
         then Inr (bf\<lparr>bits := (bits bf)[unat wordIndex := (bits bf ! unat wordIndex) OR mask]\<rparr>)
         else Inl IndexOutOfRange)"

definition getBit :: "BloomFilter \<Rightarrow> u64 \<Rightarrow> error + (bool \<times> BloomFilter)" where
  "getBit bf pos =
     (let wordIndex = pos div 64;
          bitIndex = pos mod 64;
          mask = push_bit (unat bitIndex) (1 :: u64)
      in if unat wordIndex < length (bits bf)
         then Inr (((bits bf ! unat wordIndex) AND mask) \<noteq> 0, bf)
         else Inl IndexOutOfRange)"

section \<open>Insertion and query\<close>

text \<open>
  The loop \<open>for i := uint64(0); i < bf.k; i++\<close> of \<open>Add\<close>, from the counter \<open>i\<close> on. The
  position is \<open>(h1 + i*h2) % bf.m\<close> in \<open>uint64\<close> arithmetic; \<open>Add\<close> enters the loop only
  with \<open>bf.m\<close> nonzero.
\<close>

function Add_loop :: "BloomFilter \<Rightarrow> u64 \<Rightarrow> u64 \<Rightarrow> u64 \<Rightarrow> error + BloomFilter" where
  "Add_loop bf h1 h2 i =
     (if i < k bf then
        (let pos = (h1 + i * h2) mod m bf
         in case setBit bf pos of
              Inl e \<Rightarrow> Inl e
            | Inr bf' \<Rightarrow> Add_loop bf' h1 h2 (i + 1))
      else Inr bf)"
  by pat_completeness auto
termination
proof (relation "measure (\<lambda>(bf, h1, h2, i). unat (k bf) - unat i)")
  fix bf :: BloomFilter and h1 h2 i pos :: u64 and bf' :: BloomFilter
  assume lt: "i < k bf" and set: "setBit bf pos = Inr bf'"
  from set have "k bf' = k bf"
    by (auto simp: setBit_def Let_def split: if_splits)
  moreover from lt have "unat (k bf) - unat (i + 1) < unat (k bf) - unat i"
    by unat_arith
  ultimately show "((bf', h1, h2, i + 1), bf, h1, h2, i)
      \<in> measure (\<lambda>(bf, h1, h2, i). unat (k bf) - unat i)"
    by simp
qed simp

declare Add_loop.simps [simp del]

definition Add :: "BloomFilter \<Rightarrow> byte list \<Rightarrow> error + BloomFilter" where
  "Add bf data =
     (if m bf = 0 \<or> k bf = 0 then Inl NotInitialized
      else
        (let (h1, h2) = hash128 data;
             h2 = (if h2 = 0 then 0x9e3779b97f4a7c15 else h2)
         in Add_loop bf h1 h2 0))"

text \<open>
  The loop of \<open>MightContain\<close>: \<open>return false\<close> at the first probed bit that is not set,
  \<open>return true\<close> after the last.
\<close>

function MightContain_loop ::
  "BloomFilter \<Rightarrow> u64 \<Rightarrow> u64 \<Rightarrow> u64 \<Rightarrow> error + (bool \<times> BloomFilter)" where
  "MightContain_loop bf h1 h2 i =
     (if i < k bf then
        (let pos = (h1 + i * h2) mod m bf
         in case getBit bf pos of
              Inl e \<Rightarrow> Inl e
            | Inr (b, bf') \<Rightarrow>
                if \<not> b then Inr (False, bf')
                else MightContain_loop bf' h1 h2 (i + 1))
      else Inr (True, bf))"
  by pat_completeness auto
termination
proof (relation "measure (\<lambda>(bf, h1, h2, i). unat (k bf) - unat i)")
  fix bf :: BloomFilter and h1 h2 i pos :: u64 and r :: "bool \<times> BloomFilter"
    and b :: bool and bf' :: BloomFilter
  assume lt: "i < k bf" and get: "getBit bf pos = Inr r" and r: "(b, bf') = r"
  from get r have "bf' = bf"
    by (auto simp: getBit_def Let_def split: if_splits)
  moreover from lt have "unat (k bf) - unat (i + 1) < unat (k bf) - unat i"
    by unat_arith
  ultimately show "((bf', h1, h2, i + 1), bf, h1, h2, i)
      \<in> measure (\<lambda>(bf, h1, h2, i). unat (k bf) - unat i)"
    by simp
qed simp

declare MightContain_loop.simps [simp del]

definition MightContain :: "BloomFilter \<Rightarrow> byte list \<Rightarrow> error + (bool \<times> BloomFilter)" where
  "MightContain bf data =
     (if m bf = 0 \<or> k bf = 0 then Inl NotInitialized
      else
        (let (h1, h2) = hash128 data;
             h2 = (if h2 = 0 then 0x9e3779b97f4a7c15 else h2)
         in MightContain_loop bf h1 h2 0))"

section \<open>Reset and Info\<close>

text \<open>
  \<open>for i := range bf.bits { bf.bits[i] = 0 }\<close>: the indices \<open>0\<close> up to \<open>len(bf.bits) - 1\<close>,
  one store each.
\<close>

definition Reset :: "BloomFilter \<Rightarrow> BloomFilter" where
  "Reset bf =
     fold (\<lambda>i b. b\<lparr>bits := (bits b)[i := 0]\<rparr>) [0 ..< length (bits bf)] bf"

text \<open>The verb \<open>%d\<close> of \<open>fmt.Sprintf\<close> on an unsigned value: its decimal digits.\<close>

function decimal :: "nat \<Rightarrow> string" where
  "decimal n =
     (if n < 10 then [''0123456789'' ! n]
      else decimal (n div 10) @ [''0123456789'' ! (n mod 10)])"
  by pat_completeness auto
termination
  by (relation "measure id") auto

declare decimal.simps [simp del]

definition Info :: "BloomFilter \<Rightarrow> string \<times> BloomFilter" where
  "Info bf =
     (''BloomFilter{m='' @ decimal (unat (m bf)) @ '' bits, k='' @ decimal (unat (k bf)) @ ''}'',
      bf)"

section \<open>Construction from estimates\<close>

text \<open>
  A \<open>float64\<close> is a NaN, an infinity or a finite number. The comparisons \<open><=\<close> and \<open>>=\<close>
  of Go follow IEEE 754: they compare the values, and every comparison with a NaN is
  false. \<open>0.0\<close> and \<open>1.0\<close> are \<open>Finite 0\<close> and \<open>Finite 1\<close>.
\<close>

datatype float64 = NaN | NegInf | PosInf | Finite real

fun float_le :: "float64 \<Rightarrow> float64 \<Rightarrow> bool" where
  "float_le NaN y = False"
| "float_le x NaN = False"
| "float_le NegInf y = True"
| "float_le x PosInf = True"
| "float_le (Finite x) (Finite y) = (x \<le> y)"
| "float_le PosInf y = False"
| "float_le x NegInf = False"

definition float_ge :: "float64 \<Rightarrow> float64 \<Rightarrow> bool" where
  "float_ge x y = float_le y x"

text \<open>
  \<open>NewWithEstimates\<close>. Its control flow is as in the source: the two guards, the two
  clamps \<open>if m == 0 { m = 1 }\<close> and \<open>if k == 0 { k = 1 }\<close>, the call of \<open>New\<close>. The two
  floating-point computations are parameters, since their values depend on the
  platform (\<open>math.Log\<close>, \<open>math.Ceil\<close>, and the conversion of a \<open>float64\<close> to \<open>uint64\<close>,
  which Go leaves to the implementation when the value is out of range):
  \<open>estM n fpRate\<close> is \<open>uint64(math.Ceil(-float64(n) * math.Log(fpRate) / (ln2 * ln2)))\<close> and
  \<open>estK m n\<close> is \<open>uint64(math.Ceil((float64(m) / float64(n)) * ln2))\<close>.
\<close>

definition NewWithEstimates ::
  "(u64 \<Rightarrow> float64 \<Rightarrow> u64) \<Rightarrow> (u64 \<Rightarrow> u64 \<Rightarrow> u64) \<Rightarrow> u64 \<Rightarrow> float64 \<Rightarrow> error + BloomFilter" where
  "NewWithEstimates estM estK n fpRate =
     (if n = 0 then Inl InvalidParameter
      else if float_le fpRate (Finite 0) \<or> float_ge fpRate (Finite 1) then Inl InvalidParameter
      else
        (let m0 = estM n fpRate;
             m1 = (if m0 = 0 then 1 else m0);
             k0 = estK m1 n;
             k1 = (if k0 = 0 then 1 else k0)
         in New m1 k1))"

section \<open>Notions of the specification\<close>

text \<open>
  A filter as the constructors make it and as \<open>Add\<close> and \<open>Reset\<close> keep it: \<open>m\<close> and \<open>k\<close>
  nonzero, and as many words as \<open>New\<close> computes for \<open>m\<close>.
\<close>

definition constructed :: "BloomFilter \<Rightarrow> bool" where
  "constructed bf =
     (m bf \<noteq> 0 \<and> k bf \<noteq> 0 \<and> length (bits bf) = unat ((m bf + 63) div 64))"

text \<open>The sum \<open>m + 63\<close> of \<open>New\<close> stays below \<open>2^64\<close>: \<open>m\<close> is at most \<open>2^64 - 64\<close>.\<close>

definition no_wrap :: "u64 \<Rightarrow> bool" where
  "no_wrap nbits = (unat nbits + 63 < 2 ^ 64)"

text \<open>Bit \<open>pos\<close> of the logical bit vector is stored and set.\<close>

definition is_set :: "BloomFilter \<Rightarrow> u64 \<Rightarrow> bool" where
  "is_set bf pos =
     (unat (pos div 64) < length (bits bf)
      \<and> bit (bits bf ! unat (pos div 64)) (unat (pos mod 64)))"

text \<open>A sequence of \<open>Add\<close> calls on one filter, in order; the first panic ends it.\<close>

fun Add_all :: "BloomFilter \<Rightarrow> byte list list \<Rightarrow> error + BloomFilter" where
  "Add_all bf [] = Inr bf"
| "Add_all bf (x # xs) =
     (case Add bf x of Inl e \<Rightarrow> Inl e | Inr bf' \<Rightarrow> Add_all bf' xs)"

text \<open>
  The hash derivation in the words of the specification: a mixing hash that starts from
  a basis and, for each byte, XORs the byte into the accumulator and multiplies by the
  prime; \<open>h1\<close> from the standard offset basis, \<open>h2\<close> from the basis XORed with the salt
  over the same bytes, with the fallback constant in place of \<open>h2 = 0\<close>; the probes
  \<open>(h1 + i * h2) mod m\<close> for \<open>i = 0, ..., k - 1\<close>, sum and product being 64-bit.
\<close>

definition hash_salt :: u64 where
  "hash_salt = 0x9e3779b97f4a7c15"

definition h2_fallback :: u64 where
  "h2_fallback = 0x9e3779b97f4a7c15"

primrec spec_hash :: "u64 \<Rightarrow> byte list \<Rightarrow> u64" where
  "spec_hash acc [] = acc"
| "spec_hash acc (b # bs) = spec_hash ((acc XOR ucast b) * fnv64Prime) bs"

definition spec_h1 :: "byte list \<Rightarrow> u64" where
  "spec_h1 item = spec_hash fnv64Offset item"

definition spec_h2 :: "byte list \<Rightarrow> u64" where
  "spec_h2 item =
     (let h = spec_hash (fnv64Offset XOR hash_salt) item
      in if h = 0 then h2_fallback else h)"

definition spec_probes :: "BloomFilter \<Rightarrow> byte list \<Rightarrow> u64 list" where
  "spec_probes bf item =
     map (\<lambda>i. (spec_h1 item + of_nat i * spec_h2 item) mod m bf) [0 ..< unat (k bf)]"

text \<open>
  Insertion sets the probes in order; the query tests them in order and answers false
  at the first one that is not set.
\<close>

fun set_all :: "BloomFilter \<Rightarrow> u64 list \<Rightarrow> error + BloomFilter" where
  "set_all bf [] = Inr bf"
| "set_all bf (p # ps) =
     (case setBit bf p of Inl e \<Rightarrow> Inl e | Inr bf' \<Rightarrow> set_all bf' ps)"

fun test_all :: "BloomFilter \<Rightarrow> u64 list \<Rightarrow> error + (bool \<times> BloomFilter)" where
  "test_all bf [] = Inr (True, bf)"
| "test_all bf (p # ps) =
     (case getBit bf p of
        Inl e \<Rightarrow> Inl e
      | Inr (b, bf') \<Rightarrow> if b then test_all bf' ps else Inr (False, bf'))"

definition spec_Add :: "BloomFilter \<Rightarrow> byte list \<Rightarrow> error + BloomFilter" where
  "spec_Add bf item =
     (if m bf = 0 \<or> k bf = 0 then Inl NotInitialized
      else set_all bf (spec_probes bf item))"

definition spec_MightContain :: "BloomFilter \<Rightarrow> byte list \<Rightarrow> error + (bool \<times> BloomFilter)" where
  "spec_MightContain bf item =
     (if m bf = 0 \<or> k bf = 0 then Inl NotInitialized
      else test_all bf (spec_probes bf item))"

text \<open>The rate lies in the open interval from 0 to 1.\<close>

fun in_open_unit :: "float64 \<Rightarrow> bool" where
  "in_open_unit (Finite x) = (0 < x \<and> x < 1)"
| "in_open_unit other = False"



section \<open>Bit addressing\<close>

lemma bit_index_bound: "unat (pos mod 64 :: u64) < 64"
  by (simp add: unat_mod)

lemma mask_test: "(w AND 2 ^ n \<noteq> 0) = bit w n" for w :: u64
  by (simp add: and_exp_eq_0_iff_not_bit)

lemma bit_or_mask: "n < 64 \<Longrightarrow> bit (w OR 2 ^ n) j = (bit w j \<or> j = n)" for w :: u64
  by (auto simp: bit_simps)

lemma or_mask_absorb: "bit w n \<Longrightarrow> w OR 2 ^ n = w" for w :: u64
  by (rule bit_eqI) (auto simp: bit_simps)

lemma getBit_is_set:
  "getBit bf pos =
     (if unat (pos div 64) < length (bits bf) then Inr (is_set bf pos, bf)
      else Inl IndexOutOfRange)"
  by (simp add: getBit_def is_set_def Let_def mask_test)

lemma setBit_sets: "setBit bf pos = Inr bf' \<Longrightarrow> is_set bf' pos"
  by (auto simp: setBit_def is_set_def Let_def bit_or_mask bit_index_bound split: if_splits)

lemma setBit_keeps: "setBit bf pos = Inr bf' \<Longrightarrow> is_set bf q \<Longrightarrow> is_set bf' q"
  by (auto simp: setBit_def is_set_def Let_def bit_or_mask bit_index_bound nth_list_update
           split: if_splits)

lemma setBit_fixed: "is_set bf pos \<Longrightarrow> setBit bf pos = Inr bf"
  by (simp add: setBit_def is_set_def Let_def or_mask_absorb)

lemma setBit_frame:
  "setBit bf pos = Inr bf' \<Longrightarrow>
     m bf' = m bf \<and> k bf' = k bf \<and> length (bits bf') = length (bits bf)"
  by (auto simp: setBit_def Let_def split: if_splits)

lemma setBit_in_range:
  "unat (pos div 64) < length (bits bf) \<Longrightarrow> \<exists>bf'. setBit bf pos = Inr bf'"
  by (simp add: setBit_def Let_def)

text \<open>
  A position below \<open>m\<close> has its word inside the slice that \<open>New\<close> allocates, as long as
  \<open>m + 63\<close> does not wrap around.
\<close>

lemma word_index_in_range:
  fixes pos nbits :: u64
  assumes "no_wrap nbits" and "pos < nbits"
  shows "unat (pos div 64) < unat ((nbits + 63) div 64)"
proof -
  have "unat (nbits + 63) = unat nbits + 63"
    using assms(1) by (simp add: no_wrap_def unat_add_lem [THEN iffD1])
  then have "unat ((nbits + 63) div 64) = (unat nbits + 63) div 64"
    by (simp add: unat_div)
  moreover have "unat (pos div 64) = unat pos div 64"
    by (simp add: unat_div)
  moreover have "unat pos < unat nbits"
    using assms(2) by (simp add: word_less_nat_alt)
  ultimately show ?thesis by simp
qed

lemma probe_below_m: "mm \<noteq> 0 \<Longrightarrow> x mod mm < mm" for x mm :: u64
  by (simp add: word_mod_less_divisor word_neq_0_conv [symmetric] word_gt_0)

section \<open>The loops and the probe sequence\<close>

lemma fold_spec_hash:
  "fold (\<lambda>b hash. (hash XOR ucast b) * fnv64Prime) data acc = spec_hash acc data"
  by (induction data arbitrary: acc) simp_all

lemma hash128_spec:
  "hash128 data = (spec_h1 data, spec_hash (fnv64Offset XOR hash_salt) data)"
  by (simp add: hash128_def fnv64a_def fnv64aSalted_def fold_spec_hash spec_h1_def
        hash_salt_def Let_def)

lemma counter_upt:
  fixes i n :: u64
  assumes "i < n"
  shows "[unat i ..< unat n] = unat i # [unat (i + 1) ..< unat n]"
proof -
  have "unat i < unat n"
    using assms by (simp add: word_less_nat_alt)
  moreover have "unat (i + 1) = Suc (unat i)"
    using assms by unat_arith
  ultimately show ?thesis
    by (simp add: upt_conv_Cons)
qed

lemma counter_upt_done:
  fixes i n :: u64
  assumes "\<not> i < n"
  shows "[unat i ..< unat n] = []"
  using assms by (simp add: word_less_nat_alt)

lemma Add_loop_set_all:
  "Add_loop bf h1 h2 i =
     set_all bf (map (\<lambda>j. (h1 + of_nat j * h2) mod m bf) [unat i ..< unat (k bf)])"
proof (induction bf h1 h2 i rule: Add_loop.induct)
  case (1 bf h1 h2 i)
  show ?case
  proof (cases "i < k bf")
    case False
    then show ?thesis
      by (simp add: Add_loop.simps [of bf h1 h2 i] counter_upt_done)
  next
    case True
    show ?thesis
    proof (cases "setBit bf ((h1 + i * h2) mod m bf)")
      case (Inl e)
      with True show ?thesis
        by (simp add: Add_loop.simps [of bf h1 h2 i] counter_upt)
    next
      case (Inr bf')
      have frame: "m bf' = m bf" "k bf' = k bf"
        using Inr by (simp_all add: setBit_frame)
      have "Add_loop bf' h1 h2 (i + 1) =
          set_all bf' (map (\<lambda>j. (h1 + of_nat j * h2) mod m bf') [unat (i + 1) ..< unat (k bf')])"
        using True Inr by (rule "1.IH" [OF _ refl])
      with True Inr frame show ?thesis
        by (simp add: Add_loop.simps [of bf h1 h2 i] counter_upt)
    qed
  qed
qed

lemma MightContain_loop_test_all:
  "MightContain_loop bf h1 h2 i =
     test_all bf (map (\<lambda>j. (h1 + of_nat j * h2) mod m bf) [unat i ..< unat (k bf)])"
proof (induction bf h1 h2 i rule: MightContain_loop.induct)
  case (1 bf h1 h2 i)
  show ?case
  proof (cases "i < k bf")
    case False
    then show ?thesis
      by (simp add: MightContain_loop.simps [of bf h1 h2 i] counter_upt_done)
  next
    case True
    show ?thesis
    proof (cases "getBit bf ((h1 + i * h2) mod m bf)")
      case (Inl e)
      with True show ?thesis
        by (simp add: MightContain_loop.simps [of bf h1 h2 i] counter_upt)
    next
      case (Inr r)
      obtain b bf' where r: "r = (b, bf')"
        by (cases r)
      have same: "bf' = bf"
        using Inr r by (auto simp: getBit_is_set split: if_splits)
      show ?thesis
      proof (cases b)
        case False
        with True Inr r show ?thesis
          by (simp add: MightContain_loop.simps [of bf h1 h2 i] counter_upt)
      next
        case b: True
        have "MightContain_loop bf' h1 h2 (i + 1) =
            test_all bf' (map (\<lambda>j. (h1 + of_nat j * h2) mod m bf') [unat (i + 1) ..< unat (k bf')])"
          using True Inr r b by (intro "1.IH" [OF _ refl, of r b bf']) simp_all
        with True Inr r b same show ?thesis
          by (simp add: MightContain_loop.simps [of bf h1 h2 i] counter_upt)
      qed
    qed
  qed
qed

lemma Add_spec: "Add bf item = spec_Add bf item"
  by (simp add: Add_def spec_Add_def hash128_spec Add_loop_set_all spec_probes_def
        spec_h2_def Let_def h2_fallback_def)

lemma MightContain_spec: "MightContain bf item = spec_MightContain bf item"
  by (simp add: MightContain_def spec_MightContain_def hash128_spec
        MightContain_loop_test_all spec_probes_def spec_h2_def Let_def h2_fallback_def)

text \<open>
  Claim C6. For every filter and every byte sequence, \<open>Add\<close> and \<open>MightContain\<close> derive
  the same two 64-bit values: \<open>h1\<close> from the offset basis and \<open>h2\<close> from the salted
  offset basis over the same bytes, with a fixed constant, nonzero and odd, in place of
  \<open>h2 = 0\<close>. Both walk the same probe sequence \<open>(h1 + i * h2) mod m\<close> for \<open>i\<close> from \<open>0\<close> to
  \<open>k - 1\<close>, the sum and the product in \<open>uint64\<close> arithmetic as in the source: \<open>Add\<close> sets
  the probes in order, \<open>MightContain\<close> tests them in order and stops at the first bit
  that is not set.
\<close>

theorem probes_shared:
  "Add bf item = spec_Add bf item
   \<and> MightContain bf item = spec_MightContain bf item
   \<and> h2_fallback \<noteq> 0 \<and> odd h2_fallback"
proof -
  have "h2_fallback \<noteq> 0" and "odd h2_fallback"
    by (simp_all add: h2_fallback_def)
  then show ?thesis
    by (simp add: Add_spec MightContain_spec)
qed

section \<open>Setting and testing a sequence of positions\<close>

lemma set_all_frame:
  "set_all bf ps = Inr bf' \<Longrightarrow>
     m bf' = m bf \<and> k bf' = k bf \<and> length (bits bf') = length (bits bf)"
proof (induction ps arbitrary: bf)
  case Nil
  then show ?case by simp
next
  case (Cons p ps)
  from Cons.prems(1) obtain bf1 where
    step: "setBit bf p = Inr bf1" and rest: "set_all bf1 ps = Inr bf'"
    by (auto split: sum.splits)
  from Cons.IH [OF rest] setBit_frame [OF step] show ?case by simp
qed

lemma set_all_keeps: "set_all bf ps = Inr bf' \<Longrightarrow> is_set bf q \<Longrightarrow> is_set bf' q"
proof (induction ps arbitrary: bf)
  case Nil
  then show ?case by simp
next
  case (Cons p ps)
  from Cons.prems(1) obtain bf1 where
    step: "setBit bf p = Inr bf1" and rest: "set_all bf1 ps = Inr bf'"
    by (auto split: sum.splits)
  from setBit_keeps [OF step Cons.prems(2)] Cons.IH [OF rest] show ?case by simp
qed

lemma set_all_sets: "set_all bf ps = Inr bf' \<Longrightarrow> p \<in> set ps \<Longrightarrow> is_set bf' p"
proof (induction ps arbitrary: bf)
  case Nil
  then show ?case by simp
next
  case (Cons a ps)
  from Cons.prems(1) obtain bf1 where
    step: "setBit bf a = Inr bf1" and rest: "set_all bf1 ps = Inr bf'"
    by (auto split: sum.splits)
  show ?case
  proof (cases "p = a")
    case True
    with setBit_sets [OF step] set_all_keeps [OF rest] show ?thesis by simp
  next
    case False
    with Cons.prems(2) have "p \<in> set ps" by simp
    with Cons.IH [OF rest] show ?thesis .
  qed
qed

lemma set_all_fixed: "(\<And>p. p \<in> set ps \<Longrightarrow> is_set bf p) \<Longrightarrow> set_all bf ps = Inr bf"
  by (induction ps) (simp_all add: setBit_fixed)

lemma set_all_total:
  "(\<And>p. p \<in> set ps \<Longrightarrow> unat (p div 64) < length (bits bf)) \<Longrightarrow> \<exists>bf'. set_all bf ps = Inr bf'"
proof (induction ps arbitrary: bf)
  case Nil
  then show ?case by simp
next
  case (Cons a ps)
  from Cons.prems obtain bf1 where step: "setBit bf a = Inr bf1"
    using setBit_in_range [of a bf] by auto
  have "length (bits bf1) = length (bits bf)"
    using setBit_frame [OF step] by simp
  with Cons.prems have "\<And>p. p \<in> set ps \<Longrightarrow> unat (p div 64) < length (bits bf1)"
    by simp
  from Cons.IH [OF this] step show ?case by simp
qed

lemma test_all_true: "(\<And>p. p \<in> set ps \<Longrightarrow> is_set bf p) \<Longrightarrow> test_all bf ps = Inr (True, bf)"
  by (induction ps) (simp_all add: getBit_is_set is_set_def)

lemma test_all_same: "test_all bf ps = Inr (b, bf') \<Longrightarrow> bf' = bf"
  by (induction ps) (auto simp: getBit_is_set split: if_splits)

lemma test_all_false:
  "unat (p div 64) < length (bits bf) \<Longrightarrow> \<not> is_set bf p \<Longrightarrow> test_all bf (p # ps) = Inr (False, bf)"
  by (simp add: getBit_is_set)

lemma spec_probes_frame: "m bf' = m bf \<Longrightarrow> k bf' = k bf \<Longrightarrow> spec_probes bf' item = spec_probes bf item"
  by (simp add: spec_probes_def)

lemma spec_probes_below: "m bf \<noteq> 0 \<Longrightarrow> p \<in> set (spec_probes bf item) \<Longrightarrow> p < m bf"
  by (auto simp: spec_probes_def probe_below_m)

lemma spec_probes_in_range:
  assumes "constructed bf" and "no_wrap (m bf)" and "p \<in> set (spec_probes bf item)"
  shows "unat (p div 64) < length (bits bf)"
proof -
  from assms(1) have "m bf \<noteq> 0" and len: "length (bits bf) = unat ((m bf + 63) div 64)"
    by (simp_all add: constructed_def)
  with assms(3) have "p < m bf"
    by (simp add: spec_probes_below)
  with assms(2) len show ?thesis
    by (simp add: word_index_in_range)
qed

section \<open>Adding twice\<close>

lemma Add_idem_step: "Add bf item = Inr bf' \<Longrightarrow> Add bf' item = Inr bf'"
proof -
  assume a: "Add bf item = Inr bf'"
  then have init: "\<not> (m bf = 0 \<or> k bf = 0)"
    and run: "set_all bf (spec_probes bf item) = Inr bf'"
    by (auto simp: Add_spec spec_Add_def split: if_splits)
  from set_all_frame [OF run] have frame: "m bf' = m bf" "k bf' = k bf"
    by simp_all
  then have same: "spec_probes bf' item = spec_probes bf item"
    by (rule spec_probes_frame)
  have "set_all bf' (spec_probes bf item) = Inr bf'"
    by (rule set_all_fixed) (rule set_all_sets [OF run])
  with init frame same show ?thesis
    by (simp add: Add_spec spec_Add_def)
qed

text \<open>
  Claim C8. \<open>Add\<close> is idempotent in effect: for every filter state and every byte
  sequence, \<open>Add\<close> of the item followed by \<open>Add\<close> of the same item leaves the filter as
  the first \<open>Add\<close> alone leaves it (and panics where the first \<open>Add\<close> panics).
\<close>

theorem Add_idempotent:
  "(case Add bf item of Inl e \<Rightarrow> Inl e | Inr bf' \<Rightarrow> Add bf' item) = Add bf item"
  by (cases "Add bf item") (simp_all add: Add_idem_step)

section \<open>The queries leave the filter as it is\<close>

lemma MightContain_same: "MightContain bf item = Inr (b, bf') \<Longrightarrow> bf' = bf"
  by (auto simp: MightContain_spec spec_MightContain_def dest: test_all_same split: if_splits)

text \<open>
  Claim C9. \<open>MightContain\<close> and \<open>Info\<close> do not modify the filter: the filter after the
  call is the filter before it, so \<open>m\<close>, \<open>k\<close> and every word of the bit array are
  unchanged, and \<open>MightContain\<close> of the same item on the filter it returns gives the
  same answer again.
\<close>

theorem queries_frame:
  "snd (Info bf) = bf
   \<and> (MightContain bf item = Inr (b, bf') \<longrightarrow>
        bf' = bf \<and> m bf' = m bf \<and> k bf' = k bf \<and> bits bf' = bits bf
        \<and> MightContain bf' item = Inr (b, bf'))"
  by (auto simp: Info_def dest: MightContain_same)

text \<open>
  The theorem of claim C9 at the filter with \<open>m = 64\<close>, \<open>k = 2\<close> and the one word \<open>5\<close>,
  queried with the empty byte sequence: the query returns false and the same filter.
\<close>

theorem queries_frame_witness:
  "MightContain \<lparr>m = 64, k = 2, bits = [5]\<rparr> [] = Inr (False, \<lparr>m = 64, k = 2, bits = [5]\<rparr>)
   \<and> snd (Info \<lparr>m = 64, k = 2, bits = [5]\<rparr>) = \<lparr>m = 64, k = 2, bits = [5]\<rparr>"
proof -
  have run: "MightContain \<lparr>m = 64, k = 2, bits = [5]\<rparr> [] = Inr (False, \<lparr>m = 64, k = 2, bits = [5]\<rparr>)"
    by (simp add: MightContain_def hash128_def fnv64a_def fnv64aSalted_def fnv64Offset_def
          MightContain_loop.simps getBit_def)
  with queries_frame [of "\<lparr>m = 64, k = 2, bits = [5]\<rparr>" "[]" False "\<lparr>m = 64, k = 2, bits = [5]\<rparr>"]
  show ?thesis by simp
qed

section \<open>Reset and the empty filter\<close>

lemma Reset_prefix:
  "n \<le> length (bits bf) \<Longrightarrow>
     m (fold (\<lambda>i b. b\<lparr>bits := (bits b)[i := 0]\<rparr>) [0 ..< n] bf) = m bf
   \<and> k (fold (\<lambda>i b. b\<lparr>bits := (bits b)[i := 0]\<rparr>) [0 ..< n] bf) = k bf
   \<and> bits (fold (\<lambda>i b. b\<lparr>bits := (bits b)[i := 0]\<rparr>) [0 ..< n] bf)
       = replicate n 0 @ drop n (bits bf)"
proof (induction n)
  case 0
  then show ?case by simp
next
  case (Suc n)
  then have "n < length (bits bf)" by simp
  then have "(replicate n 0 @ drop n (bits bf))[n := 0] = replicate (Suc n) 0 @ drop (Suc n) (bits bf)"
    by (simp add: list_update_append replicate_append_same Cons_nth_drop_Suc [symmetric])
  with Suc show ?case by simp
qed

lemma Reset_fields:
  "m (Reset bf) = m bf \<and> k (Reset bf) = k bf
   \<and> bits (Reset bf) = replicate (length (bits bf)) 0"
  using Reset_prefix [of "length (bits bf)" bf] by (simp add: Reset_def)

lemma zero_not_set: "bits bf = replicate n 0 \<Longrightarrow> \<not> is_set bf p"
  by (auto simp: is_set_def)

lemma spec_probes_first:
  "k bf \<noteq> 0 \<Longrightarrow> \<exists>ps. spec_probes bf item = (spec_h1 item mod m bf) # ps"
proof -
  assume "k bf \<noteq> 0"
  then have "0 < unat (k bf)" by (simp add: unat_gt_0)
  then have "[0 ..< unat (k bf)] = 0 # [1 ..< unat (k bf)]"
    by (simp add: upt_conv_Cons)
  then show ?thesis by (simp add: spec_probes_def)
qed

lemma MightContain_zero:
  assumes "constructed bf" and "no_wrap (m bf)" and "bits bf = replicate n 0"
  shows "MightContain bf item = Inr (False, bf)"
proof -
  from assms(1) have init: "m bf \<noteq> 0" "k bf \<noteq> 0"
    by (simp_all add: constructed_def)
  then obtain ps where ps: "spec_probes bf item = (spec_h1 item mod m bf) # ps"
    using spec_probes_first by blast
  then have "spec_h1 item mod m bf \<in> set (spec_probes bf item)" by simp
  then have "unat ((spec_h1 item mod m bf) div 64) < length (bits bf)"
    using assms(1,2) by (rule spec_probes_in_range [rotated 2])
  then have "test_all bf (spec_probes bf item) = Inr (False, bf)"
    unfolding ps using zero_not_set [OF assms(3)] by (rule test_all_false)
  with init show ?thesis
    by (simp add: MightContain_spec spec_MightContain_def)
qed

lemma New_constructed: "New nbits nhash = Inr bf \<Longrightarrow> constructed bf \<and> m bf = nbits \<and> k bf = nhash"
  by (auto simp: New_def constructed_def Let_def split: if_splits)

lemma Reset_constructed: "constructed bf \<Longrightarrow> constructed (Reset bf)"
  by (simp add: constructed_def Reset_fields)

lemma Add_constructed: "constructed bf \<Longrightarrow> Add bf item = Inr bf' \<Longrightarrow> constructed bf' \<and> m bf' = m bf \<and> k bf' = k bf"
  by (auto simp: Add_spec spec_Add_def constructed_def dest!: set_all_frame split: if_splits)

text \<open>
  Claim C2, as stated, fails: after \<open>Reset\<close> the query of an item that was not added
  again can still return true, since another item added after the \<open>Reset\<close> may set the
  bits that the query probes. On \<open>New(1, 1)\<close>: add "a", reset, add "b"; then the query
  of "a" returns true.
\<close>

theorem Reset_other_item_reported:
  "New 1 1 = Inr \<lparr>m = 1, k = 1, bits = [0]\<rparr>
   \<and> Add \<lparr>m = 1, k = 1, bits = [0]\<rparr> [0x61] = Inr \<lparr>m = 1, k = 1, bits = [1]\<rparr>
   \<and> Reset \<lparr>m = 1, k = 1, bits = [1]\<rparr> = \<lparr>m = 1, k = 1, bits = [0]\<rparr>
   \<and> Add \<lparr>m = 1, k = 1, bits = [0]\<rparr> [0x62] = Inr \<lparr>m = 1, k = 1, bits = [1]\<rparr>
   \<and> [0x62 :: byte] \<noteq> [0x61]
   \<and> MightContain \<lparr>m = 1, k = 1, bits = [1]\<rparr> [0x61] = Inr (True, \<lparr>m = 1, k = 1, bits = [1]\<rparr>)"
  by (simp add: New_def Add_def MightContain_def Reset_def hash128_def fnv64a_def
        fnv64aSalted_def Add_loop.simps MightContain_loop.simps setBit_def getBit_def)

text \<open>
  Claim C2, amended. \<open>Reset\<close> sets every word of the bit array to zero and keeps \<open>m\<close>
  and \<open>k\<close>; on every constructed filter whose \<open>m\<close> is at most \<open>2^64 - 64\<close>, in any state,
  \<open>MightContain\<close> right after \<open>Reset\<close>, before any further \<open>Add\<close>, returns false for
  every byte sequence.
\<close>

theorem Reset_clears:
  assumes "constructed bf" and "no_wrap (m bf)"
  shows "bits (Reset bf) = replicate (length (bits bf)) 0
         \<and> m (Reset bf) = m bf \<and> k (Reset bf) = k bf
         \<and> MightContain (Reset bf) item = Inr (False, Reset bf)"
proof -
  have "constructed (Reset bf)" and "no_wrap (m (Reset bf))"
    using assms by (simp_all add: Reset_constructed Reset_fields)
  then have "MightContain (Reset bf) item = Inr (False, Reset bf)"
    by (rule MightContain_zero) (simp add: Reset_fields)
  then show ?thesis by (simp add: Reset_fields)
qed

text \<open>
  The amended claim C2 at the filter with \<open>m = 64\<close>, \<open>k = 2\<close> and the one word \<open>5\<close>,
  queried with "a" after the \<open>Reset\<close>.
\<close>

theorem Reset_clears_witness:
  "constructed \<lparr>m = 64, k = 2, bits = [5]\<rparr> \<and> no_wrap (m \<lparr>m = 64, k = 2, bits = [5]\<rparr>)
   \<and> bits (Reset \<lparr>m = 64, k = 2, bits = [5]\<rparr>) = [0]
   \<and> MightContain (Reset \<lparr>m = 64, k = 2, bits = [5]\<rparr>) [0x61]
       = Inr (False, Reset \<lparr>m = 64, k = 2, bits = [5]\<rparr>)"
  using Reset_clears [of "\<lparr>m = 64, k = 2, bits = [5]\<rparr>" "[0x61]"]
  by (simp add: constructed_def no_wrap_def)

section \<open>No false negatives\<close>

lemma Add_total:
  assumes "constructed bf" and "no_wrap (m bf)"
  shows "\<exists>bf'. Add bf item = Inr bf'"
proof -
  from assms(1) have init: "m bf \<noteq> 0" "k bf \<noteq> 0"
    by (simp_all add: constructed_def)
  have "\<exists>bf'. set_all bf (spec_probes bf item) = Inr bf'"
    by (rule set_all_total) (rule spec_probes_in_range [OF assms])
  with init show ?thesis
    by (simp add: Add_spec spec_Add_def)
qed

lemma Add_keeps: "Add bf item = Inr bf' \<Longrightarrow> is_set bf q \<Longrightarrow> is_set bf' q"
proof -
  assume "Add bf item = Inr bf'" and q: "is_set bf q"
  then have "set_all bf (spec_probes bf item) = Inr bf'"
    by (simp add: Add_spec spec_Add_def split: if_splits)
  then show ?thesis using q by (rule set_all_keeps)
qed

lemma Add_sets: "Add bf item = Inr bf' \<Longrightarrow> p \<in> set (spec_probes bf item) \<Longrightarrow> is_set bf' p"
proof -
  assume "Add bf item = Inr bf'" and p: "p \<in> set (spec_probes bf item)"
  then have "set_all bf (spec_probes bf item) = Inr bf'"
    by (simp add: Add_spec spec_Add_def split: if_splits)
  then show ?thesis using p by (rule set_all_sets)
qed

lemma MightContain_true:
  assumes "m bf \<noteq> 0" and "k bf \<noteq> 0" and "\<And>p. p \<in> set (spec_probes bf item) \<Longrightarrow> is_set bf p"
  shows "MightContain bf item = Inr (True, bf)"
  using assms by (simp add: MightContain_spec spec_MightContain_def test_all_true)

lemma Add_frame: "Add bf item = Inr bf' \<Longrightarrow> m bf' = m bf \<and> k bf' = k bf"
proof -
  assume "Add bf item = Inr bf'"
  then have "set_all bf (spec_probes bf item) = Inr bf'"
    by (simp add: Add_spec spec_Add_def split: if_splits)
  from set_all_frame [OF this] show ?thesis by simp
qed

lemma Add_all_total:
  "constructed bf \<Longrightarrow> no_wrap (m bf) \<Longrightarrow> \<exists>bf'. Add_all bf items = Inr bf'"
proof (induction items arbitrary: bf)
  case Nil
  then show ?case by simp
next
  case (Cons a items)
  from Add_total [OF Cons.prems] obtain bf1 where step: "Add bf a = Inr bf1"
    by blast
  from Add_constructed [OF Cons.prems(1) step] Cons.prems(2)
  have "constructed bf1" and "no_wrap (m bf1)"
    by simp_all
  from Cons.IH [OF this] step show ?case by simp
qed

lemma Add_all_frame: "Add_all bf items = Inr bf' \<Longrightarrow> m bf' = m bf \<and> k bf' = k bf"
proof (induction items arbitrary: bf)
  case Nil
  then show ?case by simp
next
  case (Cons a items)
  from Cons.prems(1) obtain bf1 where
    step: "Add bf a = Inr bf1" and rest: "Add_all bf1 items = Inr bf'"
    by (auto split: sum.splits)
  from Cons.IH [OF rest] Add_frame [OF step] show ?case by simp
qed

lemma Add_all_keeps: "Add_all bf items = Inr bf' \<Longrightarrow> is_set bf q \<Longrightarrow> is_set bf' q"
proof (induction items arbitrary: bf)
  case Nil
  then show ?case by simp
next
  case (Cons a items)
  from Cons.prems(1) obtain bf1 where
    step: "Add bf a = Inr bf1" and rest: "Add_all bf1 items = Inr bf'"
    by (auto split: sum.splits)
  from Add_keeps [OF step Cons.prems(2)] have "is_set bf1 q" .
  with rest show ?case by (rule Cons.IH)
qed

lemma Add_all_sets:
  "Add_all bf items = Inr bf' \<Longrightarrow> item \<in> set items \<Longrightarrow>
     p \<in> set (spec_probes bf item) \<Longrightarrow> is_set bf' p"
proof (induction items arbitrary: bf)
  case Nil
  then show ?case by simp
next
  case (Cons a items)
  from Cons.prems(1) obtain bf1 where
    step: "Add bf a = Inr bf1" and rest: "Add_all bf1 items = Inr bf'"
    by (auto split: sum.splits)
  from Add_frame [OF step] have same: "spec_probes bf1 item = spec_probes bf item"
    by (intro spec_probes_frame) simp_all
  show ?case
  proof (cases "item = a")
    case True
    from Cons.prems(3) have "p \<in> set (spec_probes bf a)"
      unfolding True .
    with step have "is_set bf1 p" by (rule Add_sets)
    with rest show ?thesis by (rule Add_all_keeps)
  next
    case False
    with Cons.prems(2) have mem: "item \<in> set items" by simp
    from Cons.prems(3) have "p \<in> set (spec_probes bf1 item)"
      unfolding same .
    with rest mem show ?thesis by (rule Cons.IH)
  qed
qed

text \<open>
  On a constructed filter whose \<open>m\<close> is at most \<open>2^64 - 64\<close>, every sequence of \<open>Add\<close>
  calls returns, and the query of each added item then returns true.
\<close>

lemma no_false_negatives:
  assumes "constructed bf" and "no_wrap (m bf)" and "item \<in> set items"
  shows "\<exists>bf'. Add_all bf items = Inr bf' \<and> MightContain bf' item = Inr (True, bf')"
proof -
  from Add_all_total [OF assms(1,2)] obtain bf' where run: "Add_all bf items = Inr bf'"
    by blast
  from Add_all_frame [OF run] have frame: "m bf' = m bf" "k bf' = k bf"
    by simp_all
  then have same: "spec_probes bf' item = spec_probes bf item"
    by (rule spec_probes_frame)
  from assms(1) frame have init: "m bf' \<noteq> 0" "k bf' \<noteq> 0"
    by (simp_all add: constructed_def)
  have "MightContain bf' item = Inr (True, bf')"
    using init
  proof (rule MightContain_true)
    fix p
    assume "p \<in> set (spec_probes bf' item)"
    with same have "p \<in> set (spec_probes bf item)" by simp
    with run assms(3) show "is_set bf' p" by (rule Add_all_sets)
  qed
  with run show ?thesis by blast
qed

lemma no_false_negatives_New:
  assumes "nbits \<noteq> 0" and "nhash \<noteq> 0" and "no_wrap nbits" and "item \<in> set items"
  shows "\<exists>bf bf'. New nbits nhash = Inr bf \<and> Add_all bf items = Inr bf'
           \<and> MightContain bf' item = Inr (True, bf')"
proof -
  from assms(1,2) obtain bf where new: "New nbits nhash = Inr bf"
    by (simp add: New_def Let_def)
  from New_constructed [OF new] assms(3) have "constructed bf" and "no_wrap (m bf)"
    by simp_all
  from no_false_negatives [OF this assms(4)] new show ?thesis by blast
qed

text \<open>
  Claim C1 holds for every \<open>m\<close> up to \<open>2^64 - 64\<close>, as the lemmas above show, and fails
  for the 63 values of \<open>m\<close> above: there \<open>m + 63\<close> wraps around in \<open>New\<close>, the filter has
  fewer words than \<open>m\<close> bits need, and indexing the bit array panics. On
  \<open>New(18446744073709551615, 1)\<close> the bit array is empty; \<open>Add\<close> of "a" panics with an
  index out of range, and so does \<open>MightContain\<close> of "a", which therefore does not
  return true.
\<close>

theorem Add_panics_when_wordCount_wraps:
  "New 18446744073709551615 1 = Inr \<lparr>m = 18446744073709551615, k = 1, bits = []\<rparr>
   \<and> Add \<lparr>m = 18446744073709551615, k = 1, bits = []\<rparr> [0x61] = Inl IndexOutOfRange
   \<and> MightContain \<lparr>m = 18446744073709551615, k = 1, bits = []\<rparr> [0x61] = Inl IndexOutOfRange"
  by (simp add: New_def Add_def MightContain_def hash128_def fnv64a_def fnv64aSalted_def
        Add_loop.simps MightContain_loop.simps setBit_def getBit_def)

section \<open>The fresh filter\<close>

text \<open>
  For \<open>m\<close> up to \<open>2^64 - 64\<close> the fresh filter answers false to every query.
\<close>

lemma New_empty:
  assumes "nbits \<noteq> 0" and "nhash \<noteq> 0" and "no_wrap nbits"
  shows "\<exists>bf. New nbits nhash = Inr bf \<and> MightContain bf item = Inr (False, bf)"
proof -
  from assms(1,2) obtain bf where new: "New nbits nhash = Inr bf"
    and zero: "bits bf = replicate (unat ((nbits + 63) div 64)) 0"
    by (simp add: New_def Let_def)
  from New_constructed [OF new] assms(3) have "constructed bf" and "no_wrap (m bf)"
    by simp_all
  from MightContain_zero [OF this zero] new show ?thesis by blast
qed

text \<open>
  Claim C10 holds for every \<open>m\<close> up to \<open>2^64 - 64\<close>, as the lemma above shows, and fails
  above: on \<open>New(18446744073709551615, 1)\<close>, with no \<open>Add\<close> before it, \<open>MightContain\<close> of
  the empty byte sequence does not return false, it panics with an index out of
  range.
\<close>

theorem fresh_filter_query_panics:
  "New 18446744073709551615 1 = Inr \<lparr>m = 18446744073709551615, k = 1, bits = []\<rparr>
   \<and> MightContain \<lparr>m = 18446744073709551615, k = 1, bits = []\<rparr> [] = Inl IndexOutOfRange
   \<and> MightContain \<lparr>m = 18446744073709551615, k = 1, bits = []\<rparr> [] \<noteq> Inr (False, \<lparr>m = 18446744073709551615, k = 1, bits = []\<rparr>)"
  by (simp add: New_def MightContain_def hash128_def fnv64a_def fnv64aSalted_def
        MightContain_loop.simps getBit_def)

section \<open>The word count of New\<close>

lemma wordCount_no_wrap:
  assumes "no_wrap nbits"
  shows "unat ((nbits + 63) div 64) = (unat nbits + 63) div 64"
proof -
  have "unat (nbits + 63) = unat nbits + 63"
    using assms by (simp add: no_wrap_def unat_add_lem [THEN iffD1])
  then show ?thesis by (simp add: unat_div)
qed

text \<open>
  For \<open>m\<close> up to \<open>2^64 - 64\<close> the slice has the least number of zero words that hold
  \<open>m\<close> bits.
\<close>

lemma New_wordCount:
  assumes "nbits \<noteq> 0" and "nhash \<noteq> 0" and "no_wrap nbits"
  shows "\<exists>bf. New nbits nhash = Inr bf
           \<and> bits bf = replicate ((unat nbits + 63) div 64) 0
           \<and> unat nbits \<le> length (bits bf) * 64
           \<and> (\<forall>w. unat nbits \<le> w * 64 \<longrightarrow> length (bits bf) \<le> w)"
  using assms by (auto simp: New_def Let_def wordCount_no_wrap)

text \<open>
  Claim C5 holds for every \<open>m\<close> up to \<open>2^64 - 64\<close>, as the lemma above shows, and fails
  above: \<open>New(18446744073709551615, 1)\<close> computes \<open>wordCount = (m + 63) / 64 = 62 / 64 = 0\<close>
  and returns a filter with no word at all, where \<open>m\<close> bits need 288230376151711744
  words.
\<close>

theorem New_wordCount_wraps:
  "New 18446744073709551615 1 = Inr \<lparr>m = 18446744073709551615, k = 1, bits = []\<rparr>
   \<and> length (bits \<lparr>m = 18446744073709551615, k = 1, bits = []\<rparr>) = 0
   \<and> length (bits \<lparr>m = 18446744073709551615, k = 1, bits = []\<rparr>) * 64 < unat (m \<lparr>m = 18446744073709551615, k = 1, bits = []\<rparr>)
   \<and> (unat (m \<lparr>m = 18446744073709551615, k = 1, bits = []\<rparr>) + 63) div 64 = 288230376151711744"
  by (simp add: New_def)

section \<open>Positions and indices\<close>

text \<open>
  Every probe lies below \<open>m\<close>; for \<open>m\<close> up to \<open>2^64 - 64\<close> its word index lies inside the
  bit array, so neither \<open>setBit\<close> nor \<open>getBit\<close> panics on it.
\<close>

lemma probes_safe:
  assumes "constructed bf" and "p \<in> set (spec_probes bf item)"
  shows "p < m bf"
    and "no_wrap (m bf) \<Longrightarrow> \<exists>bf' b. setBit bf p = Inr bf' \<and> getBit bf p = Inr (b, bf)"
proof -
  from assms show "p < m bf"
    by (simp add: constructed_def spec_probes_below)
next
  assume "no_wrap (m bf)"
  with assms have "unat (p div 64) < length (bits bf)"
    by (simp add: spec_probes_in_range)
  then show "\<exists>bf' b. setBit bf p = Inr bf' \<and> getBit bf p = Inr (b, bf)"
    by (simp add: setBit_def getBit_def Let_def)
qed

text \<open>
  Claim C7: the first half holds (every probe lies below \<open>m\<close>), the second holds for
  \<open>m\<close> up to \<open>2^64 - 64\<close> and fails above. On \<open>New(18446744073709551615, 1)\<close> the first
  probe of "a" lies below \<open>m\<close>, and both \<open>setBit\<close> and \<open>getBit\<close> index the empty bit array
  out of range at it.
\<close>

theorem probe_index_out_of_range:
  "New 18446744073709551615 1 = Inr \<lparr>m = 18446744073709551615, k = 1, bits = []\<rparr>
   \<and> spec_probes \<lparr>m = 18446744073709551615, k = 1, bits = []\<rparr> [0x61] = [fnv64a [0x61] mod 18446744073709551615]
   \<and> fnv64a [0x61] mod 18446744073709551615 < m \<lparr>m = 18446744073709551615, k = 1, bits = []\<rparr>
   \<and> setBit \<lparr>m = 18446744073709551615, k = 1, bits = []\<rparr> (fnv64a [0x61] mod 18446744073709551615) = Inl IndexOutOfRange
   \<and> getBit \<lparr>m = 18446744073709551615, k = 1, bits = []\<rparr> (fnv64a [0x61] mod 18446744073709551615) = Inl IndexOutOfRange"
  by (simp add: New_def spec_probes_def spec_h1_def fnv64a_def fnv64Offset_def fnv64Prime_def
        setBit_def getBit_def)

section \<open>Parameter validation\<close>

lemma New_fails_iff: "New nbits nhash = Inl InvalidParameter \<longleftrightarrow> nbits = 0 \<or> nhash = 0"
  by (simp add: New_def Let_def)

lemma float_guard:
  "float_le fpRate (Finite 0) \<or> float_ge fpRate (Finite 1) \<longleftrightarrow>
     fpRate \<noteq> NaN \<and> \<not> in_open_unit fpRate"
  by (cases fpRate) (auto simp: float_ge_def)

lemma NewWithEstimates_fails_iff:
  "NewWithEstimates estM estK n fpRate = Inl InvalidParameter \<longleftrightarrow>
     n = 0 \<or> (fpRate \<noteq> NaN \<and> \<not> in_open_unit fpRate)"
proof -
  have "NewWithEstimates estM estK n fpRate = Inl InvalidParameter \<longleftrightarrow>
      n = 0 \<or> float_le fpRate (Finite 0) \<or> float_ge fpRate (Finite 1)"
    by (simp add: NewWithEstimates_def New_def Let_def)
  then show ?thesis
    by (simp only: float_guard)
qed

text \<open>
  Claim C3 holds for \<open>New\<close>, and for \<open>NewWithEstimates\<close> on every rate that is a number:
  each raises \<open>InvalidParameter\<close> exactly on the inputs the claim names, as the lemmas
  above show. It fails at a NaN: a NaN is not in the open interval from 0 to 1, and both
  \<open>fpRate <= 0.0\<close> and \<open>fpRate >= 1.0\<close> are false for it, so \<open>NewWithEstimates(1, NaN)\<close>
  passes the guards and does not raise \<open>InvalidParameter\<close>, whatever the floating-point
  computations yield. What the call does after the guards depends on the \<open>m\<close> that the
  platform computes from the NaN.
\<close>

theorem NewWithEstimates_accepts_NaN:
  "\<not> in_open_unit NaN
   \<and> NewWithEstimates estM estK 1 NaN \<noteq> Inl InvalidParameter"
  by (simp add: NewWithEstimates_def float_ge_def New_def Let_def)

section \<open>The estimates\<close>








section \<open>The scenarios of the repository's tests\<close>

text \<open>
  The hash of "a" is the published FNV-1a value, and \<open>Info\<close> prints \<open>m\<close> and \<open>k\<close> in
  decimal.
\<close>

lemma fnv64a_test_vector: "fnv64a [0x61] = 0xaf63dc4c8601ec8c"
  by (simp add: fnv64a_def fnv64Offset_def fnv64Prime_def)

lemma Info_example:
  "fst (Info \<lparr>m = 1024, k = 3, bits = []\<rparr>) = ''BloomFilter{m=1024 bits, k=3}''"
  by (simp add: Info_def decimal.simps)

text \<open>
  \<open>TestBloom_NegativeExample\<close>, with the \<open>Reset\<close> of the specification's scenario after
  it: on \<open>New(1024, 3)\<close>, after \<open>Add\<close> of "hello" and "world" both are reported present,
  and after \<open>Reset\<close> "hello" is reported absent.
\<close>

lemma scenario_hello_world:
  "(case New 1024 3 of
      Inl e \<Rightarrow> False
    | Inr bf0 \<Rightarrow>
        (case Add bf0 [0x68, 0x65, 0x6c, 0x6c, 0x6f] of
           Inl e \<Rightarrow> False
         | Inr bf1 \<Rightarrow>
             (case Add bf1 [0x77, 0x6f, 0x72, 0x6c, 0x64] of
                Inl e \<Rightarrow> False
              | Inr bf2 \<Rightarrow>
                  MightContain bf2 [0x68, 0x65, 0x6c, 0x6c, 0x6f] = Inr (True, bf2)
                  \<and> MightContain bf2 [0x77, 0x6f, 0x72, 0x6c, 0x64] = Inr (True, bf2)
                  \<and> MightContain (Reset bf2) [0x68, 0x65, 0x6c, 0x6c, 0x6f]
                      = Inr (False, Reset bf2))))"
  by code_simp

text \<open>
  \<open>TestBloom_Reset\<close>: on \<open>New(512, 4)\<close>, "foo" is reported present after its \<open>Add\<close> and
  absent after the \<open>Reset\<close>.
\<close>

lemma scenario_foo_reset:
  "(case New 512 4 of
      Inl e \<Rightarrow> False
    | Inr bf0 \<Rightarrow>
        (case Add bf0 [0x66, 0x6f, 0x6f] of
           Inl e \<Rightarrow> False
         | Inr bf1 \<Rightarrow>
             MightContain bf1 [0x66, 0x6f, 0x6f] = Inr (True, bf1)
             \<and> MightContain (Reset bf1) [0x66, 0x6f, 0x6f] = Inr (False, Reset bf1)))"
  by code_simp

end
